theory Spec2Isabelle
  imports Main
begin

section \<open>Data model\<close>

text \<open>
  The plugin keeps three module-level variables (\<open>softAssertionErrors\<close>,
  \<open>isInSoftTest\<close>, \<open>originalAssert\<close>) and mutates one property of the assertion
  engine, \<open>chai.Assertion.prototype.assert\<close>. The four together are the state that
  every function below takes and returns.

  Text is modelled as \<open>string\<close>; the code only concatenates messages and never
  measures them, so the choice of code unit does not matter.
\<close>

record ErrorEntry =
  message :: string
  stack :: "string option"

text \<open>
  A value thrown by the assertion engine or by a test body, as far as the code reads it:
  \<open>error.message\<close> and \<open>error.stack\<close> (the latter may be undefined).
\<close>

record js_error =
  err_message :: string
  err_stack :: "string option"

text \<open>
  What a test run ends with when it fails: either a thrown value that the adapter passes
  on as it is, or the \<open>Error\<close> built by \<open>reportSoftAssertionFailures\<close>, whose
  \<open>name\<close> is \<open>SoftAssertionError\<close> and whose message is the argument.
\<close>

datatype failure = Rethrown js_error | SoftAssertionError string

text \<open>What a call hands back to its caller: \<open>undefined\<close> or a value of the callee.\<close>

datatype 'v js_value = Undefined | Returned 'v

text \<open>
  A function value stored in \<open>chai.Assertion.prototype.assert\<close> or in
  \<open>originalAssert\<close>. \<open>Native g\<close> is a routine of the host, given by what it does
  on a receiver and an argument list: it throws (\<open>Inl\<close>) or returns (\<open>Inr\<close>).
  \<open>Wrapper\<close> is the function expression of \<open>setupSoftAssertions\<close>. Every
  evaluation of that expression closes over the same three module variables, so all
  such closures behave alike and the model does not tell them apart.
\<close>

datatype ('r, 'a, 'v) assert_fn =
    Native "'r \<Rightarrow> 'a list \<Rightarrow> js_error + 'v"
  | Wrapper

record ('r, 'a, 'v) plugin_state =
  softAssertionErrors :: "ErrorEntry list"
  isInSoftTest :: bool
  originalAssert :: "('r, 'a, 'v) assert_fn option"
  chai_assert :: "('r, 'a, 'v) assert_fn"

text \<open>The module as loaded, over an engine whose check entry point is \<open>g\<close>.\<close>

definition initial_state ::
  "('r \<Rightarrow> 'a list \<Rightarrow> js_error + 'v) \<Rightarrow> ('r, 'a, 'v) plugin_state" where
  "initial_state g =
     \<lparr>softAssertionErrors = [], isInSoftTest = False, originalAssert = None,
      chai_assert = Native g\<rparr>"

section \<open>The interceptor\<close>

text \<open>
  Two outcomes of \<open>originalAssert.apply(this, args)\<close> come from the host rather than
  from the original routine. With \<open>originalAssert\<close> still \<open>null\<close> the property read
  throws a TypeError. With \<open>originalAssert\<close> being the wrapper itself the call recurses
  until the stack is exhausted and the host throws a RangeError. The message texts are
  the host's. Neither state is reached by the plugin's own functions
  (lemma \<open>well_formed_setupSoftAssertions\<close> and its siblings).
\<close>

definition null_apply_error :: js_error where
  "null_apply_error =
     \<lparr>err_message = ''Cannot read properties of null (reading 'apply')'',
      err_stack = None\<rparr>"

definition stack_overflow_error :: js_error where
  "stack_overflow_error =
     \<lparr>err_message = ''Maximum call stack size exceeded'', err_stack = None\<rparr>"

text \<open>\<open>originalAssert.apply(this, args)\<close>\<close>

definition apply_original ::
  "('r, 'a, 'v) plugin_state \<Rightarrow> 'r \<Rightarrow> 'a list \<Rightarrow> js_error + 'v" where
  "apply_original s recv args =
     (case originalAssert s of
        None \<Rightarrow> Inl null_apply_error
      | Some (Native g) \<Rightarrow> g recv args
      | Some Wrapper \<Rightarrow> Inl stack_overflow_error)"

text \<open>The function assigned to \<open>chai.Assertion.prototype.assert\<close> (lines 28-45).\<close>

definition wrapper ::
  "('r, 'a, 'v) plugin_state \<Rightarrow> 'r \<Rightarrow> 'a list \<Rightarrow>
     ('r, 'a, 'v) plugin_state \<times> (js_error + 'v js_value)" where
  "wrapper s recv args =
     (if isInSoftTest s then
        (case apply_original s recv args of
           Inl err \<Rightarrow>
             (s\<lparr>softAssertionErrors :=
                  softAssertionErrors s @
                    [\<lparr>message = err_message err, stack = err_stack err\<rparr>]\<rparr>,
              Inr Undefined)
         | Inr _ \<Rightarrow> (s, Inr Undefined))
      else
        (case apply_original s recv args of
           Inl err \<Rightarrow> (s, Inl err)
         | Inr _ \<Rightarrow> (s, Inr Undefined)))"

definition setupSoftAssertions ::
  "('r, 'a, 'v) plugin_state \<Rightarrow> ('r, 'a, 'v) plugin_state" where
  "setupSoftAssertions s =
     (let s1 = (if originalAssert s = None
                then s\<lparr>originalAssert := Some (chai_assert s)\<rparr>
                else s)
      in s1\<lparr>chai_assert := Wrapper\<rparr>)"

definition restoreAssertions ::
  "('r, 'a, 'v) plugin_state \<Rightarrow> ('r, 'a, 'v) plugin_state" where
  "restoreAssertions s =
     (case originalAssert s of
        Some g \<Rightarrow> s\<lparr>chai_assert := g\<rparr>
      | None \<Rightarrow> s)"

text \<open>
  A call of the engine's check entry point, whatever is installed there at the time.
\<close>

definition call_assert ::
  "('r, 'a, 'v) plugin_state \<Rightarrow> 'r \<Rightarrow> 'a list \<Rightarrow>
     ('r, 'a, 'v) plugin_state \<times> (js_error + 'v js_value)" where
  "call_assert s recv args =
     (case chai_assert s of
        Native g \<Rightarrow> (s, map_sum id Returned (g recv args))
      | Wrapper \<Rightarrow> wrapper s recv args)"

section \<open>The reporter\<close>

text \<open>
  The decimal text of a non-negative integer, as a template literal prints an array
  index or length.
\<close>

definition digit :: "nat \<Rightarrow> char" where
  "digit d = ''0123456789'' ! d"

function number_to_string :: "nat \<Rightarrow> string" where
  "number_to_string n =
     (if n < 10 then [digit n]
      else number_to_string (n div 10) @ [digit (n mod 10)])"
  by pat_completeness auto
termination
  by (relation "measure (\<lambda>n. n)") auto

declare number_to_string.simps [simp del]

text \<open>\<open>Array.prototype.join\<close> on an array of strings.\<close>

fun join :: "string \<Rightarrow> string list \<Rightarrow> string" where
  "join sep [] = []"
| "join sep [x] = x"
| "join sep (x # y # ys) = x @ sep @ join sep (y # ys)"

definition newline :: string where
  "newline = [CHR 0x0A]"

text \<open>\<open>'='.repeat(80)\<close>\<close>

definition banner :: string where
  "banner = replicate 80 (CHR ''='')"

text \<open>
  The array produced by
  \<open>softAssertionErrors.map((entry, index) => `  ${index + 1}. ${entry.message}`)\<close>.
\<close>

definition numbered :: "ErrorEntry list \<Rightarrow> string list" where
  "numbered errs =
     map (\<lambda>(index, entry). ''  '' @ number_to_string (index + 1) @ ''. '' @ message entry)
       (enumerate 0 errs)"

definition errorMessages :: "ErrorEntry list \<Rightarrow> string" where
  "errorMessages errs = join newline (numbered errs)"

definition finalMessage :: "ErrorEntry list \<Rightarrow> string" where
  "finalMessage errs =
     join newline
       [[],
        banner,
        ''SOFT ASSERTION FAILURES ('' @ number_to_string (length errs) @ '' failed):'',
        banner,
        errorMessages errs,
        banner,
        []]"

text \<open>
  \<open>reportSoftAssertionFailures\<close> (lines 60-85). The second component is \<open>None\<close>
  when the function returns and \<open>Some\<close> of what it throws otherwise.
\<close>

definition reportSoftAssertionFailures ::
  "('r, 'a, 'v) plugin_state \<Rightarrow> ('r, 'a, 'v) plugin_state \<times> failure option" where
  "reportSoftAssertionFailures s =
     (if length (softAssertionErrors s) > 0 then
        (s\<lparr>softAssertionErrors := []\<rparr>,
         Some (SoftAssertionError (finalMessage (softAssertionErrors s))))
      else (s, None))"

section \<open>The test adapter\<close>

text \<open>
  What a user-supplied test function does, as far as the adapter can tell. A statement
  is a call of the engine's check entry point with a receiver and arguments, or the
  raising of some other error. The function first runs its synchronous part. If that
  does not throw, it has returned either a value that is not a thenable, having queued
  further statements on the command chain, or a thenable, which settles after further
  statements have run: rejected with the first error one of them throws, fulfilled
  otherwise.
\<close>

datatype ('r, 'a) stmt = Check 'r "'a list" | Throw js_error

datatype ('r, 'a) returned =
    NotThenable "('r, 'a) stmt list"
  | Thenable "('r, 'a) stmt list"

record ('r, 'a) test_fn =
  sync_part :: "('r, 'a) stmt list"
  result :: "('r, 'a) returned"

text \<open>
  Statements run in order; the first error that escapes one of them ends the run.
\<close>

fun run_stmts ::
  "('r, 'a, 'v) plugin_state \<Rightarrow> ('r, 'a) stmt list \<Rightarrow>
     ('r, 'a, 'v) plugin_state \<times> js_error option" where
  "run_stmts s [] = (s, None)"
| "run_stmts s (Check recv args # rest) =
     (case call_assert s recv args of
        (s', Inl err) \<Rightarrow> (s', Some err)
      | (s', Inr _) \<Rightarrow> run_stmts s' rest)"
| "run_stmts s (Throw err # rest) = (s, Some err)"

text \<open>Lines 107-109 (and 155-157): the start of an aggregating test.\<close>

definition begin_soft_test ::
  "('r, 'a, 'v) plugin_state \<Rightarrow> ('r, 'a, 'v) plugin_state" where
  "begin_soft_test s =
     setupSoftAssertions (s\<lparr>isInSoftTest := True, softAssertionErrors := []\<rparr>)"

text \<open>
  The callback given to \<open>cy.wrap(null).then\<close> (lines 121-124 and 135-138).
\<close>

definition final_step ::
  "('r, 'a, 'v) plugin_state \<Rightarrow> ('r, 'a, 'v) plugin_state \<times> failure option" where
  "final_step s = reportSoftAssertionFailures (s\<lparr>isInSoftTest := False\<rparr>)"

text \<open>
  The \<open>catch\<close> block (lines 139-143) and the rejection handler (lines 126-130), which
  have the same three statements.
\<close>

definition abort_test ::
  "('r, 'a, 'v) plugin_state \<Rightarrow> js_error \<Rightarrow>
     ('r, 'a, 'v) plugin_state \<times> failure option" where
  "abort_test s err =
     (restoreAssertions (s\<lparr>isInSoftTest := False\<rparr>), Some (Rethrown err))"

text \<open>
  \<open>executeTest\<close> together with the host's scheduling: the command chain runs what
  the test queued before the step appended last, and stops at the first error of a
  queued statement, in which case the appended step never runs.
\<close>

definition executeTest ::
  "('r, 'a) test_fn \<Rightarrow> ('r, 'a, 'v) plugin_state \<Rightarrow>
     ('r, 'a, 'v) plugin_state \<times> failure option" where
  "executeTest fn s =
     (case run_stmts s (sync_part fn) of
        (s1, Some err) \<Rightarrow> abort_test s1 err
      | (s1, None) \<Rightarrow>
          (case result fn of
             Thenable pending \<Rightarrow>
               (case run_stmts s1 pending of
                  (s2, Some err) \<Rightarrow> abort_test s2 err
                | (s2, None) \<Rightarrow> final_step s2)
           | NotThenable queued \<Rightarrow>
               (case run_stmts s1 queued of
                  (s2, Some err) \<Rightarrow> (s2, Some (Rethrown err))
                | (s2, None) \<Rightarrow> final_step s2)))"

text \<open>
  A run of the test registered by \<open>soft_it(title, fn)\<close>; the title plays no part.
  \<open>soft_it.only\<close> registers a function with the same text.
\<close>

definition soft_it ::
  "('r, 'a) test_fn \<Rightarrow> ('r, 'a, 'v) plugin_state \<Rightarrow>
     ('r, 'a, 'v) plugin_state \<times> failure option" where
  "soft_it fn s = executeTest fn (begin_soft_test s)"

definition soft_it_only ::
  "('r, 'a) test_fn \<Rightarrow> ('r, 'a, 'v) plugin_state \<Rightarrow>
     ('r, 'a, 'v) plugin_state \<times> failure option" where
  "soft_it_only fn s = executeTest fn (begin_soft_test s)"

text \<open>A run of a test registered with the host's own \<open>it\<close>.\<close>

definition regular_it ::
  "('r, 'a) stmt list \<Rightarrow> ('r, 'a, 'v) plugin_state \<Rightarrow>
     ('r, 'a, 'v) plugin_state \<times> failure option" where
  "regular_it stmts s =
     (case run_stmts s stmts of (s', out) \<Rightarrow> (s', map_option Rethrown out))"

text \<open>Tests of one spec file, run one after the other.\<close>

datatype ('r, 'a) test =
    SoftIt "('r, 'a) test_fn"
  | SoftItOnly "('r, 'a) test_fn"
  | RegularIt "('r, 'a) stmt list"

fun run_test ::
  "('r, 'a, 'v) plugin_state \<Rightarrow> ('r, 'a) test \<Rightarrow> ('r, 'a, 'v) plugin_state" where
  "run_test s (SoftIt fn) = fst (soft_it fn s)"
| "run_test s (SoftItOnly fn) = fst (soft_it_only fn s)"
| "run_test s (RegularIt stmts) = fst (regular_it stmts s)"

definition run_tests ::
  "('r, 'a, 'v) plugin_state \<Rightarrow> ('r, 'a) test list \<Rightarrow> ('r, 'a, 'v) plugin_state" where
  "run_tests s tests = foldl run_test s tests"

section \<open>Reference notions used in the statements\<close>

text \<open>
  The states the plugin can be in over an engine whose own check routine is \<open>g\<close>:
  nothing captured and \<open>g\<close> in place, or \<open>g\<close> captured and either the wrapper or
  \<open>g\<close> in place.
\<close>

definition well_formed ::
  "('r \<Rightarrow> 'a list \<Rightarrow> js_error + 'v) \<Rightarrow> ('r, 'a, 'v) plugin_state \<Rightarrow> bool" where
  "well_formed g s =
     (case originalAssert s of
        None \<Rightarrow> chai_assert s = Native g
      | Some h \<Rightarrow> h = Native g \<and> (chai_assert s = Wrapper \<or> chai_assert s = Native g))"

text \<open>
  What a test body fails with when every check goes straight to \<open>g\<close>: the error of
  the first statement that throws.
\<close>

fun first_failure ::
  "('r \<Rightarrow> 'a list \<Rightarrow> js_error + 'v) \<Rightarrow> ('r, 'a) stmt list \<Rightarrow> js_error option" where
  "first_failure g [] = None"
| "first_failure g (Check recv args # rest) =
     (case g recv args of Inl err \<Rightarrow> Some err | Inr _ \<Rightarrow> first_failure g rest)"
| "first_failure g (Throw err # rest) = Some err"

text \<open>
  The host cuts the command chain short: the synchronous part raises nothing and a
  queued statement raises an error other than an assertion failure.
\<close>

fun is_Throw :: "('r, 'a) stmt \<Rightarrow> bool" where
  "is_Throw (Throw err) = True"
| "is_Throw (Check recv args) = False"

definition host_aborts :: "('r, 'a) test_fn \<Rightarrow> bool" where
  "host_aborts fn =
     (\<not> list_ex is_Throw (sync_part fn) \<and>
      (case result fn of
         NotThenable queued \<Rightarrow> list_ex is_Throw queued
       | Thenable pending \<Rightarrow> False))"

text \<open>
  What a run of statements leaves in the buffer when every failing check is recorded
  and the run stops at the first other error, and that error.
\<close>

fun captured ::
  "('r \<Rightarrow> 'a list \<Rightarrow> js_error + 'v) \<Rightarrow> ('r, 'a) stmt list \<Rightarrow> ErrorEntry list" where
  "captured g [] = []"
| "captured g (Check recv args # rest) =
     (case g recv args of
        Inl err \<Rightarrow> \<lparr>message = err_message err, stack = err_stack err\<rparr> # captured g rest
      | Inr _ \<Rightarrow> captured g rest)"
| "captured g (Throw err # rest) = []"

fun first_throw :: "('r, 'a) stmt list \<Rightarrow> js_error option" where
  "first_throw [] = None"
| "first_throw (Check recv args # rest) = first_throw rest"
| "first_throw (Throw err # rest) = Some err"

text \<open>
  The decimal numeral of a number, said without reference to how it is computed: a
  non-empty text of the digits \<open>0\<close> to \<open>9\<close>, with no leading zero unless it is
  \<open>0\<close> itself, whose value read in base ten is the number.
\<close>

definition digit_value :: "char \<Rightarrow> nat" where
  "digit_value c = of_char c - 48"

definition decimal_value :: "string \<Rightarrow> nat" where
  "decimal_value str = foldl (\<lambda>acc c. 10 * acc + digit_value c) 0 str"

definition is_decimal_of :: "string \<Rightarrow> nat \<Rightarrow> bool" where
  "is_decimal_of str n =
     (str \<noteq> [] \<and> list_all (\<lambda>c. c \<in> set ''0123456789'') str \<and>
      (hd str = CHR ''0'' \<longrightarrow> str = ''0'') \<and> decimal_value str = n)"

section \<open>Example values\<close>

text \<open>
  A small engine: the receiver is the truth value under test, the first argument the
  message to fail with.
\<close>

definition example_assert :: "bool \<Rightarrow> string list \<Rightarrow> js_error + unit" where
  "example_assert recv args =
     (if recv then Inr ()
      else Inl \<lparr>err_message = (case args of [] \<Rightarrow> [] | m # _ \<Rightarrow> m),
                err_stack = Some ''at example''\<rparr>)"

definition boom :: js_error where
  "boom = \<lparr>err_message = ''boom'', err_stack = None\<rparr>"

definition soft_state :: "(bool, string, unit) plugin_state" where
  "soft_state =
     \<lparr>softAssertionErrors = [], isInSoftTest = True,
      originalAssert = Some (Native example_assert), chai_assert = Wrapper\<rparr>"

definition three_checks :: "(bool, string) stmt list" where
  "three_checks = [Check False [''A''], Check True [''B''], Check False [''C'']]"

definition regular_state :: "(bool, string, unit) plugin_state" where
  "regular_state =
     \<lparr>softAssertionErrors = [], isInSoftTest = False,
      originalAssert = Some (Native example_assert), chai_assert = Wrapper\<rparr>"

definition two_failures :: "(bool, string, unit) plugin_state" where
  "two_failures =
     \<lparr>softAssertionErrors =
        [\<lparr>message = ''A'', stack = None\<rparr>, \<lparr>message = ''C'', stack = Some ''at example''\<rparr>],
      isInSoftTest = False,
      originalAssert = Some (Native example_assert), chai_assert = Wrapper\<rparr>"

definition throws_after_failure :: "(bool, string) test_fn" where
  "throws_after_failure =
     \<lparr>sync_part = [Check False [''A''], Throw boom], result = NotThenable []\<rparr>"

definition rejects_after_failure :: "(bool, string) test_fn" where
  "rejects_after_failure =
     \<lparr>sync_part = [], result = Thenable [Check False [''A''], Throw boom]\<rparr>"

definition started :: "(bool, string, unit) plugin_state" where
  "started = begin_soft_test (initial_state example_assert)"

definition twelve_failures :: "(bool, string, unit) plugin_state" where
  "twelve_failures =
     \<lparr>softAssertionErrors =
        map (\<lambda>m. \<lparr>message = m, stack = None\<rparr>)
          [''a'', ''b'', ''c'', ''d'', ''e'', ''f'', ''g'', ''h'', ''i'', ''j'', ''k'', ''l''],
      isInSoftTest = False,
      originalAssert = Some (Native example_assert), chai_assert = Wrapper\<rparr>"

definition aborted_by_host :: "(bool, string) test_fn" where
  "aborted_by_host =
     \<lparr>sync_part = [], result = NotThenable [Check False [''A''], Throw boom]\<rparr>"

section \<open>Properties of the embedding\<close>

lemma apply_original_native:
  "originalAssert s = Some (Native g) \<Longrightarrow> apply_original s recv args = g recv args"
  by (simp add: apply_original_def)

lemma wrapper_keeps:
  "originalAssert (fst (wrapper s recv args)) = originalAssert s"
  "chai_assert (fst (wrapper s recv args)) = chai_assert s"
  "isInSoftTest (fst (wrapper s recv args)) = isInSoftTest s"
  by (simp_all add: wrapper_def split: sum.splits)

lemma call_assert_keeps:
  "originalAssert (fst (call_assert s recv args)) = originalAssert s"
  "chai_assert (fst (call_assert s recv args)) = chai_assert s"
  "isInSoftTest (fst (call_assert s recv args)) = isInSoftTest s"
  by (simp_all add: call_assert_def wrapper_keeps split: assert_fn.splits)

lemma run_stmts_keeps:
  "originalAssert (fst (run_stmts s stmts)) = originalAssert s \<and>
   chai_assert (fst (run_stmts s stmts)) = chai_assert s \<and>
   isInSoftTest (fst (run_stmts s stmts)) = isInSoftTest s"
proof (induction stmts arbitrary: s)
  case Nil
  show ?case by simp
next
  case (Cons st rest)
  show ?case
  proof (cases st)
    case (Check recv args)
    obtain s' out where c: "call_assert s recv args = (s', out)"
      by (cases "call_assert s recv args")
    have k: "originalAssert s' = originalAssert s" "chai_assert s' = chai_assert s"
      "isInSoftTest s' = isInSoftTest s"
      using call_assert_keeps [of s recv args] c by simp_all
    show ?thesis
      using Check c k Cons.IH [of s'] by (cases out) simp_all
  next
    case (Throw err)
    then show ?thesis by simp
  qed
qed

lemma run_stmts_soft:
  assumes "isInSoftTest s" "originalAssert s = Some (Native g)" "chai_assert s = Wrapper"
  shows "run_stmts s stmts =
           (s\<lparr>softAssertionErrors := softAssertionErrors s @ captured g stmts\<rparr>,
            first_throw stmts)"
  using assms
proof (induction stmts arbitrary: s)
  case Nil
  show ?case by simp
next
  case (Cons st rest)
  show ?case
  proof (cases st)
    case (Check recv args)
    show ?thesis
    proof (cases "g recv args")
      case (Inl err)
      let ?s' = "s\<lparr>softAssertionErrors := softAssertionErrors s @
                    [\<lparr>message = err_message err, stack = err_stack err\<rparr>]\<rparr>"
      have c: "call_assert s recv args = (?s', Inr Undefined)"
        using Cons.prems Inl by (simp add: call_assert_def wrapper_def apply_original_def)
      have "run_stmts ?s' rest =
              (?s'\<lparr>softAssertionErrors := softAssertionErrors ?s' @ captured g rest\<rparr>,
               first_throw rest)"
        using Cons.prems by (intro Cons.IH) simp_all
      with c Check Inl show ?thesis by simp
    next
      case (Inr v)
      have c: "call_assert s recv args = (s, Inr Undefined)"
        using Cons.prems Inr by (simp add: call_assert_def wrapper_def apply_original_def)
      with Check Inr Cons.IH [OF Cons.prems] show ?thesis by simp
    qed
  next
    case (Throw err)
    then show ?thesis by simp
  qed
qed

lemma run_stmts_regular:
  assumes "\<not> isInSoftTest s" "well_formed g s"
  shows "run_stmts s stmts = (s, first_failure g stmts)"
  using assms
proof (induction stmts)
  case Nil
  show ?case by simp
next
  case (Cons st rest)
  show ?case
  proof (cases st)
    case (Check recv args)
    have c: "call_assert s recv args = (s, map_sum id (\<lambda>v. if chai_assert s = Wrapper then Undefined else Returned v) (g recv args))"
      using Cons.prems
      by (cases "g recv args")
         (auto simp: call_assert_def wrapper_def apply_original_def well_formed_def
               split: option.splits assert_fn.splits)
    show ?thesis
      using Check c Cons.IH [OF Cons.prems] by (cases "g recv args") simp_all
  next
    case (Throw err)
    then show ?thesis by simp
  qed
qed


lemma well_formed_initial_state: "well_formed g (initial_state g)"
  by (simp add: well_formed_def initial_state_def)

lemma well_formed_same_engine:
  "originalAssert s' = originalAssert s \<Longrightarrow> chai_assert s' = chai_assert s \<Longrightarrow>
   well_formed g s' = well_formed g s"
  by (cases "originalAssert s") (simp_all add: well_formed_def)

lemma setupSoftAssertions_well_formed:
  "well_formed g s \<Longrightarrow>
   setupSoftAssertions s = s\<lparr>originalAssert := Some (Native g), chai_assert := Wrapper\<rparr>"
  by (auto simp: well_formed_def setupSoftAssertions_def split: option.splits)

lemma well_formed_setupSoftAssertions:
  "well_formed g s \<Longrightarrow> well_formed g (setupSoftAssertions s)"
  by (auto simp: well_formed_def setupSoftAssertions_def split: option.splits)

lemma well_formed_restoreAssertions:
  "well_formed g s \<Longrightarrow> well_formed g (restoreAssertions s)"
  by (auto simp: well_formed_def restoreAssertions_def split: option.splits)

lemma well_formed_not_wrapped:
  "well_formed g s \<Longrightarrow> originalAssert s \<noteq> Some Wrapper"
  by (auto simp: well_formed_def)

lemma begin_soft_test_well_formed:
  "well_formed g s \<Longrightarrow>
   begin_soft_test s =
     s\<lparr>isInSoftTest := True, softAssertionErrors := [],
       originalAssert := Some (Native g), chai_assert := Wrapper\<rparr>"
  by (auto simp: well_formed_def begin_soft_test_def setupSoftAssertions_def
           split: option.splits)

lemma reportSoftAssertionFailures_keeps:
  "originalAssert (fst (reportSoftAssertionFailures s)) = originalAssert s"
  "chai_assert (fst (reportSoftAssertionFailures s)) = chai_assert s"
  "isInSoftTest (fst (reportSoftAssertionFailures s)) = isInSoftTest s"
  "softAssertionErrors (fst (reportSoftAssertionFailures s)) = []"
  by (simp_all add: reportSoftAssertionFailures_def)

lemma final_step_keeps:
  "originalAssert (fst (final_step s)) = originalAssert s"
  "chai_assert (fst (final_step s)) = chai_assert s"
  "isInSoftTest (fst (final_step s)) = False"
  "softAssertionErrors (fst (final_step s)) = []"
  by (simp_all add: final_step_def reportSoftAssertionFailures_keeps)

lemma restoreAssertions_keeps:
  "originalAssert (restoreAssertions s) = originalAssert s"
  "isInSoftTest (restoreAssertions s) = isInSoftTest s"
  "softAssertionErrors (restoreAssertions s) = softAssertionErrors s"
  by (simp_all add: restoreAssertions_def split: option.splits)

lemma setupSoftAssertions_keeps:
  "isInSoftTest (setupSoftAssertions s) = isInSoftTest s"
  "softAssertionErrors (setupSoftAssertions s) = softAssertionErrors s"
  "chai_assert (setupSoftAssertions s) = Wrapper"
  "originalAssert s = Some h \<Longrightarrow> originalAssert (setupSoftAssertions s) = Some h"
  "originalAssert s = None \<Longrightarrow> originalAssert (setupSoftAssertions s) = Some (chai_assert s)"
  by (simp_all add: setupSoftAssertions_def)

lemma abort_test_keeps:
  "originalAssert (fst (abort_test s err)) = originalAssert s"
  "isInSoftTest (fst (abort_test s err)) = False"
  "softAssertionErrors (fst (abort_test s err)) = softAssertionErrors s"
  "snd (abort_test s err) = Some (Rethrown err)"
  by (simp_all add: abort_test_def restoreAssertions_keeps)

lemma abort_test_captured:
  "originalAssert s = Some h \<Longrightarrow>
   abort_test s err = (s\<lparr>isInSoftTest := False, chai_assert := h\<rparr>, Some (Rethrown err))"
  by (simp add: abort_test_def restoreAssertions_def)

lemma executeTest_keeps_original:
  "originalAssert (fst (executeTest fn s)) = originalAssert s"
proof -
  obtain s1 o1 where r1: "run_stmts s (sync_part fn) = (s1, o1)"
    by (cases "run_stmts s (sync_part fn)")
  have k1: "originalAssert s1 = originalAssert s"
    using run_stmts_keeps [of s "sync_part fn"] r1 by simp
  show ?thesis
  proof (cases o1)
    case (Some err)
    with r1 k1 show ?thesis by (simp add: executeTest_def abort_test_keeps)
  next
    case None
    obtain stmts where st: "result fn = Thenable stmts \<or> result fn = NotThenable stmts"
      by (cases "result fn") auto
    obtain s2 o2 where r2: "run_stmts s1 stmts = (s2, o2)"
      by (cases "run_stmts s1 stmts")
    have k2: "originalAssert s2 = originalAssert s1"
      using run_stmts_keeps [of s1 stmts] r2 by simp
    from st show ?thesis
      using None r1 r2 k1 k2
      by (cases o2) (auto simp: executeTest_def abort_test_keeps final_step_keeps)
  qed
qed

lemma executeTest_soft:
  assumes "isInSoftTest b" "originalAssert b = Some (Native g)" "chai_assert b = Wrapper"
  shows "executeTest fn b =
     (let s1 = b\<lparr>softAssertionErrors := softAssertionErrors b @ captured g (sync_part fn)\<rparr>
      in case first_throw (sync_part fn) of
           Some err \<Rightarrow> abort_test s1 err
         | None \<Rightarrow>
            (case result fn of
               Thenable pending \<Rightarrow>
                 (let s2 = s1\<lparr>softAssertionErrors := softAssertionErrors s1 @ captured g pending\<rparr>
                  in case first_throw pending of
                       Some err \<Rightarrow> abort_test s2 err
                     | None \<Rightarrow> final_step s2)
             | NotThenable queued \<Rightarrow>
                 (let s2 = s1\<lparr>softAssertionErrors := softAssertionErrors s1 @ captured g queued\<rparr>
                  in case first_throw queued of
                       Some err \<Rightarrow> (s2, Some (Rethrown err))
                     | None \<Rightarrow> final_step s2)))"
proof -
  let ?s1 = "b\<lparr>softAssertionErrors := softAssertionErrors b @ captured g (sync_part fn)\<rparr>"
  have r1: "run_stmts b (sync_part fn) = (?s1, first_throw (sync_part fn))"
    using assms by (rule run_stmts_soft)
  have r2: "run_stmts ?s1 stmts =
              (?s1\<lparr>softAssertionErrors := softAssertionErrors ?s1 @ captured g stmts\<rparr>,
               first_throw stmts)" for stmts
    using assms by (intro run_stmts_soft) simp_all
  show ?thesis
    unfolding executeTest_def r1 Let_def
    by (simp add: r2 split: option.splits returned.splits)
qed

lemma list_ex_is_Throw: "list_ex is_Throw stmts = (first_throw stmts \<noteq> None)"
  by (induction stmts rule: first_throw.induct) simp_all

lemma well_formed_abort_test:
  "well_formed g s \<Longrightarrow> well_formed g (fst (abort_test s err))"
  using well_formed_same_engine [of "s\<lparr>isInSoftTest := False\<rparr>" s g]
  by (simp add: abort_test_def well_formed_restoreAssertions)

lemma well_formed_final_step:
  "well_formed g s \<Longrightarrow> well_formed g (fst (final_step s))"
  using well_formed_same_engine [of "fst (final_step s)" s g]
  by (simp add: final_step_keeps)

lemma well_formed_run_stmts:
  "well_formed g s \<Longrightarrow> well_formed g (fst (run_stmts s stmts))"
  using well_formed_same_engine [of "fst (run_stmts s stmts)" s g]
  by (simp add: run_stmts_keeps)

lemma well_formed_executeTest:
  assumes "well_formed g s"
  shows "well_formed g (fst (executeTest fn s))"
proof -
  obtain s1 o1 where r1: "run_stmts s (sync_part fn) = (s1, o1)"
    by (cases "run_stmts s (sync_part fn)")
  have w1: "well_formed g s1"
    using well_formed_run_stmts [OF assms, of "sync_part fn"] r1 by simp
  show ?thesis
  proof (cases o1)
    case (Some err)
    with r1 w1 show ?thesis by (simp add: executeTest_def well_formed_abort_test)
  next
    case None
    obtain stmts where st: "result fn = Thenable stmts \<or> result fn = NotThenable stmts"
      by (cases "result fn") auto
    obtain s2 o2 where r2: "run_stmts s1 stmts = (s2, o2)"
      by (cases "run_stmts s1 stmts")
    have w2: "well_formed g s2"
      using well_formed_run_stmts [OF w1, of stmts] r2 by simp
    from st show ?thesis
      using None r1 r2 w2
      by (cases o2) (auto simp: executeTest_def well_formed_abort_test well_formed_final_step)
  qed
qed

lemma well_formed_begin_soft_test:
  "well_formed g s \<Longrightarrow> well_formed g (begin_soft_test s)"
  by (simp add: begin_soft_test_well_formed) (simp add: well_formed_def)

lemma well_formed_soft_it:
  "well_formed g s \<Longrightarrow> well_formed g (fst (soft_it fn s))"
  "well_formed g s \<Longrightarrow> well_formed g (fst (soft_it_only fn s))"
  by (simp_all add: soft_it_def soft_it_only_def well_formed_executeTest
        well_formed_begin_soft_test)

lemma well_formed_regular_it:
  "well_formed g s \<Longrightarrow> well_formed g (fst (regular_it stmts s))"
  using well_formed_run_stmts [of g s stmts]
  by (cases "run_stmts s stmts") (simp add: regular_it_def)

lemma well_formed_run_tests:
  "well_formed g s \<Longrightarrow> well_formed g (run_tests s tests)"
  unfolding run_tests_def
proof (induction tests arbitrary: s)
  case Nil
  then show ?case by simp
next
  case (Cons t tests)
  have "well_formed g (run_test s t)"
    using Cons.prems by (cases t) (simp_all add: well_formed_soft_it well_formed_regular_it)
  then show ?case using Cons.IH by simp
qed

lemma soft_it_well_formed:
  "well_formed g s \<Longrightarrow>
   soft_it fn s =
     executeTest fn
       (s\<lparr>isInSoftTest := True, softAssertionErrors := [],
          originalAssert := Some (Native g), chai_assert := Wrapper\<rparr>)"
  by (simp add: soft_it_def begin_soft_test_well_formed)

lemma soft_it_leaves_regular_mode:
  assumes "well_formed g s" "\<not> host_aborts fn"
  shows "\<not> isInSoftTest (fst (soft_it fn s))"
proof -
  let ?b = "s\<lparr>isInSoftTest := True, softAssertionErrors := [],
              originalAssert := Some (Native g), chai_assert := Wrapper\<rparr>"
  have e: "soft_it fn s = executeTest fn ?b"
    using assms(1) by (rule soft_it_well_formed)
  show ?thesis
    unfolding e
    using assms(2)
    by (subst executeTest_soft [where g = g])
       (auto simp: Let_def host_aborts_def list_ex_is_Throw abort_test_keeps final_step_keeps
             split: option.splits returned.splits)
qed

lemma regular_it_regular_mode:
  assumes "\<not> isInSoftTest s" "well_formed g s"
  shows "regular_it stmts s = (s, map_option Rethrown (first_failure g stmts))"
  using run_stmts_regular [OF assms, of stmts] by (simp add: regular_it_def)

lemma number_to_string_small: "n < 10 \<Longrightarrow> number_to_string n = [digit n]"
  by (simp add: number_to_string.simps)

lemma number_to_string_examples:
  "number_to_string 0 = ''0''"
  "number_to_string 1 = ''1''"
  "number_to_string 2 = ''2''"
  "number_to_string 10 = ''10''"
  "number_to_string 209 = ''209''"
  by (simp_all add: number_to_string.simps digit_def)

lemma banner_text:
  "banner = ''================================================================================''"
  by (simp add: banner_def eval_nat_numeral)

lemma join_Cons: "zs \<noteq> [] \<Longrightarrow> join sep (x # zs) = x @ sep @ join sep zs"
  by (cases zs) simp_all

lemma join_append:
  "xs \<noteq> [] \<Longrightarrow> zs \<noteq> [] \<Longrightarrow> join sep (xs @ zs) = join sep xs @ sep @ join sep zs"
proof (induction xs)
  case Nil
  then show ?case by simp
next
  case (Cons x xs)
  show ?case
  proof (cases "xs = []")
    case True
    with Cons.prems show ?thesis by (simp add: join_Cons)
  next
    case False
    with Cons show ?thesis by (simp add: join_Cons)
  qed
qed

lemma numbered_eq:
  "numbered errs =
     map (\<lambda>i. ''  '' @ number_to_string (i + 1) @ ''. '' @ message (errs ! i))
       [0..<length errs]"
  by (rule nth_equalityI) (simp_all add: numbered_def nth_enumerate_eq)

lemma length_numbered: "length (numbered errs) = length errs"
  by (simp add: numbered_def)


lemma finalMessage_parts:
  "finalMessage errs =
     newline @ banner @ newline @
     ''SOFT ASSERTION FAILURES ('' @ number_to_string (length errs) @ '' failed):'' @
     newline @ banner @ newline @
     join newline (numbered errs) @
     newline @ banner @ newline"
  by (simp add: finalMessage_def errorMessages_def)

lemma finalMessage_lines:
  assumes "errs \<noteq> []"
  shows "finalMessage errs =
     join newline
       ([[], banner,
         ''SOFT ASSERTION FAILURES ('' @ number_to_string (length errs) @ '' failed):'',
         banner] @ numbered errs @ [banner, []])"
proof -
  have n: "numbered errs \<noteq> []"
    using assms length_numbered [of errs] by auto
  have "join newline (numbered errs @ [banner, []]) =
          join newline (numbered errs) @ newline @ banner @ newline"
    using n by (simp add: join_append)
  then show ?thesis
    using n by (simp add: finalMessage_parts join_Cons)
qed

lemma captured_append:
  "first_throw xs = None \<Longrightarrow> captured g (xs @ ys) = captured g xs @ captured g ys"
  by (induction xs rule: first_throw.induct) (simp_all split: sum.splits)

lemma soft_it_completes:
  assumes "well_formed g s" "first_throw (sync_part fn) = None"
    "result fn = NotThenable rest \<or> result fn = Thenable rest" "first_throw rest = None"
  shows "soft_it fn s =
     final_step
       (s\<lparr>isInSoftTest := True, originalAssert := Some (Native g),
          chai_assert := Wrapper,
          softAssertionErrors := captured g (sync_part fn) @ captured g rest\<rparr>)"
proof -
  let ?b = "s\<lparr>isInSoftTest := True, softAssertionErrors := [],
              originalAssert := Some (Native g), chai_assert := Wrapper\<rparr>"
  have e: "soft_it fn s = executeTest fn ?b"
    using assms(1) by (rule soft_it_well_formed)
  show ?thesis
    unfolding e
    using assms(2-4)
    by (subst executeTest_soft [where g = g]) (auto simp: Let_def)
qed

lemma original_kept_soft_it:
  "originalAssert s = Some h \<Longrightarrow> originalAssert (fst (soft_it fn s)) = Some h"
  "originalAssert s = Some h \<Longrightarrow> originalAssert (fst (soft_it_only fn s)) = Some h"
  by (simp_all add: soft_it_def soft_it_only_def executeTest_keeps_original
        begin_soft_test_def setupSoftAssertions_keeps)

lemma original_kept_regular_it:
  "originalAssert (fst (regular_it stmts s)) = originalAssert s"
  using run_stmts_keeps [of s stmts]
  by (cases "run_stmts s stmts") (simp add: regular_it_def)

lemma original_kept_run_tests:
  "originalAssert s = Some h \<Longrightarrow> originalAssert (run_tests s tests) = Some h"
  unfolding run_tests_def
proof (induction tests arbitrary: s)
  case Nil
  then show ?case by simp
next
  case (Cons t tests)
  have "originalAssert (run_test s t) = Some h"
    using Cons.prems
    by (cases t) (simp_all add: original_kept_soft_it original_kept_regular_it)
  then show ?case using Cons.IH by simp
qed

lemma setupSoftAssertions_twice:
  "setupSoftAssertions (setupSoftAssertions s) = setupSoftAssertions s"
  by (simp add: setupSoftAssertions_def)

lemma soft_it_only_eq: "soft_it_only fn s = soft_it fn s"
  by (simp add: soft_it_only_def soft_it_def)

lemma soft_it_sync_throw:
  assumes "well_formed g s" "run_stmts (begin_soft_test s) (sync_part fn) = (s1, Some err)"
  shows "soft_it fn s =
           (s1\<lparr>isInSoftTest := False, chai_assert := Native g\<rparr>, Some (Rethrown err))"
proof -
  have "originalAssert (begin_soft_test s) = Some (Native g)"
    using assms(1) by (simp add: begin_soft_test_well_formed)
  then have "originalAssert s1 = Some (Native g)"
    using run_stmts_keeps [of "begin_soft_test s" "sync_part fn"] assms(2) by simp
  then show ?thesis
    using assms(2) by (simp add: soft_it_def executeTest_def abort_test_captured)
qed

lemma soft_it_rejection:
  assumes "well_formed g s" "run_stmts (begin_soft_test s) (sync_part fn) = (s1, None)"
    "result fn = Thenable pending" "run_stmts s1 pending = (s2, Some err)"
  shows "soft_it fn s =
           (s2\<lparr>isInSoftTest := False, chai_assert := Native g\<rparr>, Some (Rethrown err))"
proof -
  have "originalAssert (begin_soft_test s) = Some (Native g)"
    using assms(1) by (simp add: begin_soft_test_well_formed)
  then have "originalAssert s1 = Some (Native g)"
    using run_stmts_keeps [of "begin_soft_test s" "sync_part fn"] assms(2) by simp
  then have "originalAssert s2 = Some (Native g)"
    using run_stmts_keeps [of s1 pending] assms(4) by simp
  then show ?thesis
    using assms(2-4) by (simp add: soft_it_def executeTest_def abort_test_captured)
qed

lemma started_eq:
  "started =
     \<lparr>softAssertionErrors = [], isInSoftTest = True,
      originalAssert = Some (Native example_assert), chai_assert = Wrapper\<rparr>"
  by (simp add: started_def begin_soft_test_def setupSoftAssertions_def initial_state_def)

lemma started_run:
  "run_stmts started [Check False [''A''], Throw boom] =
     (started\<lparr>softAssertionErrors := [\<lparr>message = ''A'', stack = Some ''at example''\<rparr>]\<rparr>,
      Some boom)"
  "run_stmts started [] = (started, None)"
  by (simp_all add: started_eq call_assert_def wrapper_def apply_original_def
        example_assert_def)

lemma first_throw_append:
  "first_throw (xs @ ys) = (case first_throw xs of None \<Rightarrow> first_throw ys | Some e \<Rightarrow> Some e)"
  by (induction xs rule: first_throw.induct) simp_all

lemma soft_it_checks_only:
  assumes "well_formed g s" "first_throw (sync_part fn @ rest) = None"
    "result fn = NotThenable rest \<or> result fn = Thenable rest"
  shows "snd (soft_it fn s) =
     (if captured g (sync_part fn @ rest) = [] then None
      else Some (SoftAssertionError (finalMessage (captured g (sync_part fn @ rest)))))"
proof -
  have n: "first_throw (sync_part fn) = None" "first_throw rest = None"
    using assms(2) by (simp_all add: first_throw_append split: option.splits)
  show ?thesis
    unfolding soft_it_completes [OF assms(1) n(1) assms(3) n(2)]
    by (simp add: captured_append n final_step_def reportSoftAssertionFailures_def)
qed

lemma host_abort_keeps_soft_mode:
  assumes "well_formed g s" "host_aborts fn"
  shows "isInSoftTest (fst (soft_it fn s))"
proof -
  let ?b = "s\<lparr>isInSoftTest := True, softAssertionErrors := [],
              originalAssert := Some (Native g), chai_assert := Wrapper\<rparr>"
  have e: "soft_it fn s = executeTest fn ?b"
    using assms(1) by (rule soft_it_well_formed)
  show ?thesis
    unfolding e
    using assms(2)
    by (subst executeTest_soft [where g = g])
       (auto simp: Let_def host_aborts_def list_ex_is_Throw
             split: option.splits returned.splits)
qed

lemma digit_facts:
  assumes "d < 10"
  shows "digit_value (digit d) = d" "digit d \<in> set ''0123456789''"
    "digit d = CHR ''0'' \<longleftrightarrow> d = 0"
proof -
  from assms have "d = 0 \<or> d = 1 \<or> d = 2 \<or> d = 3 \<or> d = 4 \<or> d = 5 \<or> d = 6 \<or> d = 7 \<or>
    d = 8 \<or> d = 9"
    by arith
  then show "digit_value (digit d) = d" "digit d \<in> set ''0123456789''"
    "digit d = CHR ''0'' \<longleftrightarrow> d = 0"
    by (auto simp: digit_def digit_value_def)
qed

lemma decimal_value_snoc:
  "decimal_value (str @ [c]) = 10 * decimal_value str + digit_value c"
  by (simp add: decimal_value_def)

lemma number_to_string_is_decimal: "is_decimal_of (number_to_string n) n"
proof (induction n rule: number_to_string.induct)
  case (1 n)
  show ?case
  proof (cases "n < 10")
    case True
    then have "number_to_string n = [digit n]"
      by (simp add: number_to_string.simps)
    with True digit_facts [OF True] show ?thesis
      by (simp add: is_decimal_of_def decimal_value_def digit_def)
  next
    case False
    let ?str = "number_to_string (n div 10)"
    have s: "number_to_string n = ?str @ [digit (n mod 10)]"
      using False by (subst number_to_string.simps) simp
    have ih: "is_decimal_of ?str (n div 10)"
      using False by (rule "1.IH")
    have d: "n mod 10 < 10" by simp
    have ne: "?str \<noteq> []" and all: "list_all (\<lambda>c. c \<in> set ''0123456789'') ?str"
      and val: "decimal_value ?str = n div 10"
      and lead: "hd ?str = CHR ''0'' \<longrightarrow> ?str = ''0''"
      using ih by (simp_all add: is_decimal_of_def)
    have nz: "hd ?str \<noteq> CHR ''0''"
    proof
      assume "hd ?str = CHR ''0''"
      with lead have "?str = ''0''" by simp
      then have "decimal_value ?str = 0"
        by (simp add: decimal_value_def digit_value_def)
      with val False show False by simp
    qed
    have "decimal_value (number_to_string n) = n"
      unfolding s decimal_value_snoc val using digit_facts(1) [OF d] by simp
    moreover have "list_all (\<lambda>c. c \<in> set ''0123456789'') (number_to_string n)"
      unfolding s using all digit_facts(2) [OF d] by simp
    moreover have "hd (number_to_string n) \<noteq> CHR ''0''"
      unfolding s using ne nz by simp
    ultimately show ?thesis
      using s by (simp add: is_decimal_of_def)
  qed
qed

lemma join_concat:
  "xs \<noteq> [] \<Longrightarrow> sep @ join sep xs = concat (map (\<lambda>x. sep @ x) xs)"
proof (induction xs)
  case Nil
  then show ?case by simp
next
  case (Cons x xs)
  then show ?case by (cases "xs = []") (simp_all add: join_Cons)
qed

lemma finalMessage_text:
  assumes "errs \<noteq> []"
  shows "finalMessage errs =
     [CHR 0x0A] @ replicate 80 (CHR ''='') @ [CHR 0x0A] @
     ''SOFT ASSERTION FAILURES ('' @ number_to_string (length errs) @ '' failed):'' @
     [CHR 0x0A] @ replicate 80 (CHR ''='') @
     concat (map (\<lambda>i. [CHR 0x0A] @ ''  '' @ number_to_string (i + 1) @ ''. '' @
                     message (errs ! i))
               [0..<length errs]) @
     [CHR 0x0A] @ replicate 80 (CHR ''='') @ [CHR 0x0A]"
proof -
  have n: "numbered errs \<noteq> []"
    using assms length_numbered [of errs] by auto
  have "newline @ join newline (numbered errs) =
          concat (map (\<lambda>x. newline @ x) (numbered errs))"
    using n by (rule join_concat)
  also have "\<dots> = concat (map (\<lambda>i. [CHR 0x0A] @ ''  '' @ number_to_string (i + 1) @ ''. '' @
                     message (errs ! i)) [0..<length errs])"
    by (simp add: numbered_eq newline_def comp_def)
  finally have j: "newline @ join newline (numbered errs) =
     concat (map (\<lambda>i. [CHR 0x0A] @ ''  '' @ number_to_string (i + 1) @ ''. '' @
                     message (errs ! i)) [0..<length errs])" .
  have "finalMessage errs =
     newline @ banner @ newline @
     ''SOFT ASSERTION FAILURES ('' @ number_to_string (length errs) @ '' failed):'' @
     newline @ banner @ (newline @ join newline (numbered errs)) @
     newline @ banner @ newline"
    by (simp add: finalMessage_parts)
  then show ?thesis
    unfolding j by (simp add: newline_def banner_def)
qed

lemma wrapper_regular_mode:
  "\<not> isInSoftTest s \<Longrightarrow>
   wrapper s recv args =
     (s, case apply_original s recv args of Inl err \<Rightarrow> Inl err | Inr v \<Rightarrow> Inr Undefined)"
  by (simp add: wrapper_def split: sum.splits)

section \<open>The specification, claim by claim\<close>

text \<open>
  C1. While \<open>isInSoftTest\<close> is true, a call of the wrapper whose delegated call to
  the original routine throws appends one record, made of the thrown value's message
  and optional stack, to the end of \<open>softAssertionErrors\<close> and returns normally;
  when the delegated call returns, the buffer is unchanged. The delegated call is the
  captured original applied to the same receiver and arguments, and a call of the
  engine's entry point is a call of the wrapper once it is installed.
\<close>

theorem soft_mode_records_failure:
  "isInSoftTest s \<longrightarrow>
     (\<forall>err. apply_original s recv args = Inl err \<longrightarrow>
        wrapper s recv args =
          (s\<lparr>softAssertionErrors :=
               softAssertionErrors s @
                 [\<lparr>message = err_message err, stack = err_stack err\<rparr>]\<rparr>,
           Inr Undefined)) \<and>
     (\<forall>v. apply_original s recv args = Inr v \<longrightarrow>
        wrapper s recv args = (s, Inr Undefined)) \<and>
     (originalAssert s = Some (Native g) \<longrightarrow>
        apply_original s recv args = g recv args) \<and>
     (chai_assert s = Wrapper \<longrightarrow> call_assert s recv args = wrapper s recv args)"
  by (simp add: wrapper_def apply_original_native call_assert_def)

theorem soft_mode_records_failure_witness:
  "isInSoftTest soft_state \<and>
   apply_original soft_state False [''A''] =
     Inl \<lparr>err_message = ''A'', err_stack = Some ''at example''\<rparr> \<and>
   call_assert soft_state False [''A''] =
     (soft_state\<lparr>softAssertionErrors := [\<lparr>message = ''A'', stack = Some ''at example''\<rparr>]\<rparr>,
      Inr Undefined) \<and>
   apply_original soft_state True [''B''] = Inr () \<and>
   call_assert soft_state True [''B''] = (soft_state, Inr Undefined)"
proof -
  have m: "isInSoftTest soft_state" "chai_assert soft_state = Wrapper"
    "originalAssert soft_state = Some (Native example_assert)"
    "softAssertionErrors soft_state = []"
    by (simp_all add: soft_state_def)
  have a: "apply_original soft_state False [''A''] =
             Inl \<lparr>err_message = ''A'', err_stack = Some ''at example''\<rparr>"
    by (simp add: apply_original_def m example_assert_def)
  have b: "apply_original soft_state True [''B''] = Inr ()"
    by (simp add: apply_original_def m example_assert_def)
  show ?thesis
    using soft_mode_records_failure [where s = soft_state and recv = False
        and args = "[''A'']" and g = example_assert]
      soft_mode_records_failure [where s = soft_state and recv = True
        and args = "[''B'']" and g = example_assert] m a b
    by simp
qed



text \<open>
  C9. \<open>setupSoftAssertions\<close> is idempotent. Its first call stores the engine's entry
  point in \<open>originalAssert\<close> before putting the wrapper in its place; once
  \<open>originalAssert\<close> holds a function, no function of the plugin and no run of tests
  changes it, so over an engine starting with its own routine the wrapper is never
  captured as the original. \<open>restoreAssertions\<close> puts the captured function back as it
  is and changes nothing when nothing was captured.
\<close>

theorem install_idempotent_uninstall_verbatim:
  "setupSoftAssertions (setupSoftAssertions s) = setupSoftAssertions s \<and>
   call_assert (setupSoftAssertions (setupSoftAssertions s)) recv args =
     call_assert (setupSoftAssertions s) recv args \<and>
   chai_assert (setupSoftAssertions s) = Wrapper \<and>
   (originalAssert s = None \<longrightarrow>
      originalAssert (setupSoftAssertions s) = Some (chai_assert s) \<and>
      restoreAssertions s = s) \<and>
   (originalAssert s = Some h \<longrightarrow>
      originalAssert (setupSoftAssertions s) = Some h \<and>
      originalAssert (restoreAssertions s) = Some h \<and>
      originalAssert (fst (wrapper s recv args)) = Some h \<and>
      originalAssert (fst (reportSoftAssertionFailures s)) = Some h \<and>
      originalAssert (run_tests s tests) = Some h \<and>
      restoreAssertions s = s\<lparr>chai_assert := h\<rparr>) \<and>
   originalAssert (run_tests (initial_state g) tests) \<noteq> Some Wrapper \<and>
   (originalAssert (run_tests (initial_state g) tests) = None \<or>
    originalAssert (run_tests (initial_state g) tests) = Some (Native g))"
proof -
  have w: "well_formed g (run_tests (initial_state g) tests)"
    by (intro well_formed_run_tests well_formed_initial_state)
  then have n: "originalAssert (run_tests (initial_state g) tests) = None \<or>
    originalAssert (run_tests (initial_state g) tests) = Some (Native g)"
    by (auto simp: well_formed_def split: option.splits)
  have r: "originalAssert s = Some h \<longrightarrow> restoreAssertions s = s\<lparr>chai_assert := h\<rparr>"
    "originalAssert s = None \<longrightarrow> restoreAssertions s = s"
    by (simp_all add: restoreAssertions_def)
  show ?thesis
    using n r well_formed_not_wrapped [OF w]
    by (simp add: setupSoftAssertions_twice setupSoftAssertions_keeps restoreAssertions_keeps
          wrapper_keeps reportSoftAssertionFailures_keeps original_kept_run_tests)
qed

theorem install_idempotent_uninstall_verbatim_witness:
  "originalAssert (initial_state example_assert) = None \<and>
   originalAssert (setupSoftAssertions (initial_state example_assert)) =
     Some (Native example_assert) \<and>
   restoreAssertions (initial_state example_assert) = initial_state example_assert \<and>
   originalAssert soft_state = Some (Native example_assert) \<and>
   originalAssert (setupSoftAssertions soft_state) = Some (Native example_assert) \<and>
   restoreAssertions soft_state = soft_state\<lparr>chai_assert := Native example_assert\<rparr> \<and>
   originalAssert
     (run_tests soft_state
        [SoftIt \<lparr>sync_part = [], result = NotThenable three_checks\<rparr>,
         RegularIt three_checks]) = Some (Native example_assert)"
proof -
  have a: "originalAssert (initial_state example_assert) = None"
    "chai_assert (initial_state example_assert) = Native example_assert"
    by (simp_all add: initial_state_def)
  have b: "originalAssert soft_state = Some (Native example_assert)"
    by (simp add: soft_state_def)
  show ?thesis
    using install_idempotent_uninstall_verbatim
        [where s = "initial_state example_assert" and h = "Native example_assert"
         and g = example_assert]
      install_idempotent_uninstall_verbatim
        [where s = soft_state and h = "Native example_assert" and g = example_assert
         and tests = "[SoftIt \<lparr>sync_part = [], result = NotThenable three_checks\<rparr>,
                       RegularIt three_checks]"]
      a b
    by simp
qed

text \<open>
  C10, against the claim as stated: with \<open>isInSoftTest\<close> false and the original routine
  failing, the wrapper does not return \<open>undefined\<close>; it throws what the original threw.
\<close>

theorem wrapper_returns_undefined_counterexample:
  "\<not> isInSoftTest regular_state \<and>
   apply_original regular_state False [''A''] =
     Inl \<lparr>err_message = ''A'', err_stack = Some ''at example''\<rparr> \<and>
   snd (wrapper regular_state False [''A'']) =
     Inl \<lparr>err_message = ''A'', err_stack = Some ''at example''\<rparr> \<and>
   snd (wrapper regular_state False [''A'']) \<noteq> Inr Undefined"
  by (simp add: wrapper_def apply_original_def regular_state_def example_assert_def)

text \<open>
  C10, amended. In every branch in which the wrapper returns (soft mode with the
  original succeeding or failing, regular mode with the original succeeding) it returns
  \<open>undefined\<close>, and it never hands on a value returned by the original; in regular mode
  with the original failing it does not return, the failure escapes.
\<close>

theorem wrapper_discards_return_value:
  "(isInSoftTest s \<longrightarrow> snd (wrapper s recv args) = Inr Undefined) \<and>
   (\<not> isInSoftTest s \<and> apply_original s recv args = Inr v \<longrightarrow>
      snd (wrapper s recv args) = Inr Undefined) \<and>
   (\<not> isInSoftTest s \<and> apply_original s recv args = Inl err \<longrightarrow>
      snd (wrapper s recv args) = Inl err) \<and>
   snd (wrapper s recv args) \<noteq> Inr (Returned v') \<and>
   (chai_assert s = Wrapper \<longrightarrow> snd (call_assert s recv args) \<noteq> Inr (Returned v'))"
  by (auto simp: wrapper_def call_assert_def split: sum.splits)

theorem wrapper_discards_return_value_witness:
  "isInSoftTest soft_state \<and>
   snd (wrapper soft_state True [''B'']) = Inr Undefined \<and>
   snd (wrapper soft_state False [''A'']) = Inr Undefined \<and>
   \<not> isInSoftTest regular_state \<and>
   apply_original regular_state True [''B''] = Inr () \<and>
   snd (wrapper regular_state True [''B'']) = Inr Undefined \<and>
   apply_original regular_state False [''A''] =
     Inl \<lparr>err_message = ''A'', err_stack = Some ''at example''\<rparr> \<and>
   snd (wrapper regular_state False [''A'']) =
     Inl \<lparr>err_message = ''A'', err_stack = Some ''at example''\<rparr> \<and>
   chai_assert regular_state = Wrapper \<and>
   snd (call_assert regular_state True [''B'']) \<noteq> Inr (Returned ())"
proof -
  have m: "isInSoftTest soft_state" "\<not> isInSoftTest regular_state"
    "chai_assert regular_state = Wrapper"
    by (simp_all add: soft_state_def regular_state_def)
  have a: "apply_original regular_state True [''B''] = Inr ()"
    "apply_original regular_state False [''A''] =
       Inl \<lparr>err_message = ''A'', err_stack = Some ''at example''\<rparr>"
    by (simp_all add: apply_original_def regular_state_def example_assert_def)
  show ?thesis
    using wrapper_discards_return_value [where s = soft_state and recv = True
        and args = "[''B'']"]
      wrapper_discards_return_value [where s = soft_state and recv = False
        and args = "[''A'']"]
      wrapper_discards_return_value [where s = regular_state and recv = True
        and args = "[''B'']" and v = "()" and v' = "()"]
      wrapper_discards_return_value [where s = regular_state and recv = False
        and args = "[''A'']"
        and err = "\<lparr>err_message = ''A'', err_stack = Some ''at example''\<rparr>"]
      m a
    by simp
qed

text \<open>
  C6. When the synchronous part of the test function throws, the run of the test ends
  with \<open>isInSoftTest\<close> false, the engine's entry point holding the original routine
  again, and the same thrown value as the test's failure; nothing else of the state
  changes. The same holds for \<open>soft_it.only\<close>.
\<close>

theorem sync_throw_restores_and_rethrows:
  "well_formed g s \<Longrightarrow>
   run_stmts (begin_soft_test s) (sync_part fn) = (s1, Some err) \<Longrightarrow>
   soft_it fn s =
     (s1\<lparr>isInSoftTest := False, chai_assert := Native g\<rparr>, Some (Rethrown err)) \<and>
   soft_it_only fn s =
     (s1\<lparr>isInSoftTest := False, chai_assert := Native g\<rparr>, Some (Rethrown err))"
  by (simp add: soft_it_only_eq soft_it_sync_throw)

theorem sync_throw_restores_and_rethrows_witness:
  "well_formed example_assert (initial_state example_assert) \<and>
   run_stmts (begin_soft_test (initial_state example_assert))
     (sync_part throws_after_failure) =
     (started\<lparr>softAssertionErrors := [\<lparr>message = ''A'', stack = Some ''at example''\<rparr>]\<rparr>,
      Some boom) \<and>
   soft_it throws_after_failure (initial_state example_assert) =
     (\<lparr>softAssertionErrors = [\<lparr>message = ''A'', stack = Some ''at example''\<rparr>],
       isInSoftTest = False, originalAssert = Some (Native example_assert),
       chai_assert = Native example_assert\<rparr>,
      Some (Rethrown boom))"
proof -
  have w: "well_formed example_assert (initial_state example_assert)"
    by (rule well_formed_initial_state)
  have r: "run_stmts (begin_soft_test (initial_state example_assert))
     (sync_part throws_after_failure) =
     (started\<lparr>softAssertionErrors := [\<lparr>message = ''A'', stack = Some ''at example''\<rparr>]\<rparr>,
      Some boom)"
    using started_run(1) by (simp add: throws_after_failure_def started_def)
  show ?thesis
    using sync_throw_restores_and_rethrows [OF w r] w r
    by (simp add: started_eq)
qed

text \<open>
  C5, against the claim as stated: after a test function whose thenable rejects, the
  engine's entry point no longer holds the wrapper; it holds the original routine.
\<close>

theorem rejection_keeps_wrapper_counterexample:
  "snd (soft_it rejects_after_failure (initial_state example_assert)) = Some (Rethrown boom) \<and>
   chai_assert (fst (soft_it rejects_after_failure (initial_state example_assert))) =
     Native example_assert \<and>
   chai_assert (fst (soft_it rejects_after_failure (initial_state example_assert))) \<noteq> Wrapper"
proof -
  have r: "run_stmts (begin_soft_test (initial_state example_assert))
             (sync_part rejects_after_failure) = (started, None)"
    by (simp add: rejects_after_failure_def started_def)
  have t: "result rejects_after_failure = Thenable [Check False [''A''], Throw boom]"
    by (simp add: rejects_after_failure_def)
  show ?thesis
    by (simp add: soft_it_rejection [OF well_formed_initial_state r t started_run(1)])
qed

text \<open>
  C5, amended. When the thenable returned by the test function rejects, the run of the
  test ends with \<open>isInSoftTest\<close> false, the interception uninstalled (the engine's
  entry point holds the original routine again) and the rejection as the test's failure,
  without a report. The same holds for \<open>soft_it.only\<close>.
\<close>

theorem rejection_restores_and_rethrows:
  "well_formed g s \<Longrightarrow>
   run_stmts (begin_soft_test s) (sync_part fn) = (s1, None) \<Longrightarrow>
   result fn = Thenable pending \<Longrightarrow>
   run_stmts s1 pending = (s2, Some err) \<Longrightarrow>
   soft_it fn s =
     (s2\<lparr>isInSoftTest := False, chai_assert := Native g\<rparr>, Some (Rethrown err)) \<and>
   soft_it_only fn s =
     (s2\<lparr>isInSoftTest := False, chai_assert := Native g\<rparr>, Some (Rethrown err))"
  by (simp add: soft_it_only_eq soft_it_rejection)

theorem rejection_restores_and_rethrows_witness:
  "well_formed example_assert (initial_state example_assert) \<and>
   run_stmts (begin_soft_test (initial_state example_assert))
     (sync_part rejects_after_failure) = (started, None) \<and>
   result rejects_after_failure = Thenable [Check False [''A''], Throw boom] \<and>
   run_stmts started [Check False [''A''], Throw boom] =
     (started\<lparr>softAssertionErrors := [\<lparr>message = ''A'', stack = Some ''at example''\<rparr>]\<rparr>,
      Some boom) \<and>
   soft_it_only rejects_after_failure (initial_state example_assert) =
     (\<lparr>softAssertionErrors = [\<lparr>message = ''A'', stack = Some ''at example''\<rparr>],
       isInSoftTest = False, originalAssert = Some (Native example_assert),
       chai_assert = Native example_assert\<rparr>,
      Some (Rethrown boom))"
proof -
  have w: "well_formed example_assert (initial_state example_assert)"
    by (rule well_formed_initial_state)
  have r: "run_stmts (begin_soft_test (initial_state example_assert))
             (sync_part rejects_after_failure) = (started, None)"
    by (simp add: rejects_after_failure_def started_def)
  have t: "result rejects_after_failure = Thenable [Check False [''A''], Throw boom]"
    by (simp add: rejects_after_failure_def)
  show ?thesis
    using rejection_restores_and_rethrows [OF w r t started_run(1)] w r t started_run(1)
    by (simp add: started_eq)
qed

text \<open>
  C4, against the claim as stated: a check fails and is recorded, then the test
  function throws another error; the test is aborted with that error and the buffer
  still holds the record.
\<close>

theorem buffer_empty_after_hard_error_counterexample:
  "snd (soft_it throws_after_failure (initial_state example_assert)) = Some (Rethrown boom) \<and>
   softAssertionErrors (fst (soft_it throws_after_failure (initial_state example_assert))) =
     [\<lparr>message = ''A'', stack = Some ''at example''\<rparr>] \<and>
   softAssertionErrors (fst (soft_it throws_after_failure (initial_state example_assert))) \<noteq> []"
proof -
  have r: "run_stmts (begin_soft_test (initial_state example_assert))
     (sync_part throws_after_failure) =
     (started\<lparr>softAssertionErrors := [\<lparr>message = ''A'', stack = Some ''at example''\<rparr>]\<rparr>,
      Some boom)"
    using started_run(1) by (simp add: throws_after_failure_def started_def)
  show ?thesis
    by (simp add: soft_it_sync_throw [OF well_formed_initial_state r])
qed

text \<open>
  C4, amended. The buffer is empty at the start of every aggregating test and empty
  after the report, in particular right after the aggregate failure is raised. When
  another error aborts the test through the \<open>catch\<close> block or the rejection handler,
  the buffer is left as it is: it holds the records of the checks that failed before
  the error.
\<close>

theorem buffer_lifecycle:
  "softAssertionErrors (begin_soft_test s) = [] \<and>
   softAssertionErrors (fst (reportSoftAssertionFailures s)) = [] \<and>
   softAssertionErrors (fst (final_step s)) = [] \<and>
   softAssertionErrors (fst (abort_test s err)) = softAssertionErrors s \<and>
   (well_formed g s0 \<and> first_throw (sync_part fn) = Some err \<longrightarrow>
      snd (soft_it fn s0) = Some (Rethrown err) \<and>
      softAssertionErrors (fst (soft_it fn s0)) = captured g (sync_part fn)) \<and>
   (well_formed g s0 \<and> first_throw (sync_part fn) = None \<and>
    result fn = Thenable pending \<and> first_throw pending = Some err \<longrightarrow>
      snd (soft_it fn s0) = Some (Rethrown err) \<and>
      softAssertionErrors (fst (soft_it fn s0)) =
        captured g (sync_part fn) @ captured g pending)"
proof -
  let ?b = "s0\<lparr>isInSoftTest := True, softAssertionErrors := [],
              originalAssert := Some (Native g), chai_assert := Wrapper\<rparr>"
  have x: "executeTest fn ?b =
     (let s1 = ?b\<lparr>softAssertionErrors := softAssertionErrors ?b @ captured g (sync_part fn)\<rparr>
      in case first_throw (sync_part fn) of
           Some err \<Rightarrow> abort_test s1 err
         | None \<Rightarrow>
            (case result fn of
               Thenable pending \<Rightarrow>
                 (let s2 = s1\<lparr>softAssertionErrors := softAssertionErrors s1 @ captured g pending\<rparr>
                  in case first_throw pending of
                       Some err \<Rightarrow> abort_test s2 err
                     | None \<Rightarrow> final_step s2)
             | NotThenable queued \<Rightarrow>
                 (let s2 = s1\<lparr>softAssertionErrors := softAssertionErrors s1 @ captured g queued\<rparr>
                  in case first_throw queued of
                       Some err \<Rightarrow> (s2, Some (Rethrown err))
                     | None \<Rightarrow> final_step s2)))"
    by (rule executeTest_soft) simp_all
  have a: "snd (soft_it fn s0) = Some (Rethrown err) \<and>
      softAssertionErrors (fst (soft_it fn s0)) = captured g (sync_part fn)"
    if "well_formed g s0" "first_throw (sync_part fn) = Some err"
    unfolding soft_it_well_formed [OF that(1)] x
    using that(2) by (simp add: abort_test_keeps)
  have b: "snd (soft_it fn s0) = Some (Rethrown err) \<and>
      softAssertionErrors (fst (soft_it fn s0)) =
        captured g (sync_part fn) @ captured g pending"
    if "well_formed g s0" "first_throw (sync_part fn) = None"
      "result fn = Thenable pending" "first_throw pending = Some err"
    unfolding soft_it_well_formed [OF that(1)] x
    using that(2-4) by (simp add: abort_test_keeps)
  show ?thesis
    using a b
    by (simp add: begin_soft_test_def setupSoftAssertions_keeps
          reportSoftAssertionFailures_keeps final_step_keeps abort_test_keeps)
qed

theorem buffer_lifecycle_witness:
  "softAssertionErrors (begin_soft_test two_failures) = [] \<and>
   softAssertionErrors (fst (reportSoftAssertionFailures two_failures)) = [] \<and>
   softAssertionErrors (fst (abort_test two_failures boom)) =
     [\<lparr>message = ''A'', stack = None\<rparr>, \<lparr>message = ''C'', stack = Some ''at example''\<rparr>] \<and>
   well_formed example_assert (initial_state example_assert) \<and>
   first_throw (sync_part throws_after_failure) = Some boom \<and>
   softAssertionErrors (fst (soft_it throws_after_failure (initial_state example_assert))) =
     [\<lparr>message = ''A'', stack = Some ''at example''\<rparr>] \<and>
   first_throw (sync_part rejects_after_failure) = None \<and>
   result rejects_after_failure = Thenable [Check False [''A''], Throw boom] \<and>
   first_throw [Check False [''A''], Throw boom :: (bool, string) stmt] = Some boom \<and>
   softAssertionErrors (fst (soft_it rejects_after_failure (initial_state example_assert))) =
     [\<lparr>message = ''A'', stack = Some ''at example''\<rparr>]"
proof -
  have w: "well_formed example_assert (initial_state example_assert)"
    by (rule well_formed_initial_state)
  have t: "first_throw (sync_part throws_after_failure) = Some boom"
    "captured example_assert (sync_part throws_after_failure) =
       [\<lparr>message = ''A'', stack = Some ''at example''\<rparr>]"
    by (simp_all add: throws_after_failure_def example_assert_def)
  have r: "first_throw (sync_part rejects_after_failure) = None"
    "result rejects_after_failure = Thenable [Check False [''A''], Throw boom]"
    "first_throw [Check False [''A''], Throw boom :: (bool, string) stmt] = Some boom"
    "captured example_assert (sync_part rejects_after_failure) @
     captured example_assert [Check False [''A''], Throw boom] =
       [\<lparr>message = ''A'', stack = Some ''at example''\<rparr>]"
    by (simp_all add: rejects_after_failure_def example_assert_def)
  have e: "softAssertionErrors two_failures =
     [\<lparr>message = ''A'', stack = None\<rparr>, \<lparr>message = ''C'', stack = Some ''at example''\<rparr>]"
    by (simp add: two_failures_def)
  show ?thesis
    using buffer_lifecycle [where s = two_failures and err = boom and g = example_assert
        and ?s0.0 = "initial_state example_assert" and fn = throws_after_failure]
      buffer_lifecycle [where s = two_failures and err = boom and g = example_assert
        and ?s0.0 = "initial_state example_assert" and fn = rejects_after_failure
        and pending = "[Check False [''A''], Throw boom]"]
      w t r e
    by simp
qed

text \<open>
  C3. For a non-empty buffer of \<open>N\<close> records the message thrown by the reporter is
  this text, character by character: a newline, 80 \<open>=\<close> characters, a newline,
  \<open>SOFT ASSERTION FAILURES (N failed):\<close>, a newline, 80 \<open>=\<close> characters, then for
  each record in order a newline, two spaces, its 1-based index, a dot, a space and its
  message, then a newline, 80 \<open>=\<close> characters and a newline. That is the lines of the
  specification joined by newlines, the first and the last line being empty. \<open>N\<close> and
  the indices are printed as decimal numerals.
\<close>

theorem composite_message_text:
  "softAssertionErrors s \<noteq> [] \<Longrightarrow>
   snd (reportSoftAssertionFailures s) =
     Some (SoftAssertionError
       ([CHR 0x0A] @ replicate 80 (CHR ''='') @ [CHR 0x0A] @
        ''SOFT ASSERTION FAILURES ('' @
          number_to_string (length (softAssertionErrors s)) @ '' failed):'' @
        [CHR 0x0A] @ replicate 80 (CHR ''='') @
        concat (map (\<lambda>i. [CHR 0x0A] @ ''  '' @ number_to_string (i + 1) @ ''. '' @
                        message (softAssertionErrors s ! i))
                  [0..<length (softAssertionErrors s)]) @
        [CHR 0x0A] @ replicate 80 (CHR ''='') @ [CHR 0x0A])) \<and>
   is_decimal_of (number_to_string (length (softAssertionErrors s)))
     (length (softAssertionErrors s)) \<and>
   (\<forall>i < length (softAssertionErrors s). is_decimal_of (number_to_string (i + 1)) (i + 1))"
  using finalMessage_text [of "softAssertionErrors s"]
  by (simp add: reportSoftAssertionFailures_def number_to_string_is_decimal)

theorem composite_message_text_witness:
  "softAssertionErrors twelve_failures \<noteq> [] \<and>
   snd (reportSoftAssertionFailures twelve_failures) =
     Some (SoftAssertionError
       ([CHR 0x0A] @
        ''================================================================================'' @
        [CHR 0x0A] @ ''SOFT ASSERTION FAILURES (12 failed):'' @
        [CHR 0x0A] @
        ''================================================================================'' @
        [CHR 0x0A] @ ''  1. a'' @
        [CHR 0x0A] @ ''  2. b'' @
        [CHR 0x0A] @ ''  3. c'' @
        [CHR 0x0A] @ ''  4. d'' @
        [CHR 0x0A] @ ''  5. e'' @
        [CHR 0x0A] @ ''  6. f'' @
        [CHR 0x0A] @ ''  7. g'' @
        [CHR 0x0A] @ ''  8. h'' @
        [CHR 0x0A] @ ''  9. i'' @
        [CHR 0x0A] @ ''  10. j'' @
        [CHR 0x0A] @ ''  11. k'' @
        [CHR 0x0A] @ ''  12. l'' @
        [CHR 0x0A] @
        ''================================================================================'' @
        [CHR 0x0A])) \<and>
   number_to_string 12 = ''12'' \<and> is_decimal_of ''12'' 12"
proof -
  have e: "softAssertionErrors twelve_failures =
     map (\<lambda>m. \<lparr>message = m, stack = None\<rparr>)
       [''a'', ''b'', ''c'', ''d'', ''e'', ''f'', ''g'', ''h'', ''i'', ''j'', ''k'', ''l'']"
    by (simp add: twelve_failures_def)
  have ne: "softAssertionErrors twelve_failures \<noteq> []"
    by (simp add: e)
  have l: "length (softAssertionErrors twelve_failures) = 12"
    by (simp add: e)
  have u: "[0..<12] = [0, 1, 2, 3, 4, 5, 6, 7, 8, 9, 10, 11]"
    by (simp add: upt_rec)
  have b: "replicate 80 (CHR ''='') =
     ''================================================================================''"
    using banner_text by (simp only: banner_def)
  have n: "number_to_string 12 = ''12''"
    by (simp add: number_to_string.simps digit_def)
  show ?thesis
    using composite_message_text [OF ne] ne n
    unfolding l u b
    by (simp add: e number_to_string.simps digit_def)
qed

text \<open>
  C8. A test function issues three checks, wherever it issues them: the first fails
  with message \<open>A\<close>, the second passes, the third fails with message \<open>C\<close>. The test
  fails with the composite message for two failures, in which the entry \<open>1. A\<close> is
  followed by the entry \<open>2. C\<close>: the numbers count the failed checks, not the checks.
\<close>

theorem numbering_counts_failed_checks:
  assumes "well_formed g s"
    and "g r1 a1 = Inl e1" and "err_message e1 = ''A''"
    and "g r2 a2 = Inr v"
    and "g r3 a3 = Inl e3" and "err_message e3 = ''C''"
    and "sync_part fn @ rest = [Check r1 a1, Check r2 a2, Check r3 a3]"
    and "result fn = NotThenable rest \<or> result fn = Thenable rest"
  shows "snd (soft_it fn s) =
     Some (SoftAssertionError
       ([CHR 0x0A] @
        ''================================================================================'' @
        [CHR 0x0A] @ ''SOFT ASSERTION FAILURES (2 failed):'' @
        [CHR 0x0A] @
        ''================================================================================'' @
        [CHR 0x0A] @ ''  1. A'' @
        [CHR 0x0A] @ ''  2. C'' @
        [CHR 0x0A] @
        ''================================================================================'' @
        [CHR 0x0A]))"
proof -
  let ?errs = "[\<lparr>message = ''A'', stack = err_stack e1\<rparr>, \<lparr>message = ''C'', stack = err_stack e3\<rparr>]"
  have c: "captured g (sync_part fn @ rest) = ?errs"
    using assms(2-6) by (simp add: assms(7))
  have t: "first_throw (sync_part fn @ rest) = None"
    by (simp add: assms(7))
  have b: "replicate 80 (CHR ''='') =
     ''================================================================================''"
    using banner_text by (simp only: banner_def)
  have u: "[0..<length ?errs] = [0, 1]"
    by (simp add: upt_rec)
  have m: "finalMessage ?errs =
        [CHR 0x0A] @
        ''================================================================================'' @
        [CHR 0x0A] @ ''SOFT ASSERTION FAILURES (2 failed):'' @
        [CHR 0x0A] @
        ''================================================================================'' @
        [CHR 0x0A] @ ''  1. A'' @
        [CHR 0x0A] @ ''  2. C'' @
        [CHR 0x0A] @
        ''================================================================================'' @
        [CHR 0x0A]"
    unfolding finalMessage_text [of ?errs, simplified] u b
    by (simp add: number_to_string_small digit_def)
  have "snd (soft_it fn s) = Some (SoftAssertionError (finalMessage ?errs))"
    using soft_it_checks_only [OF assms(1) t assms(8)] by (simp add: c)
  then show ?thesis
    unfolding m .
qed

theorem numbering_counts_failed_checks_witness:
  "well_formed example_assert (initial_state example_assert) \<and>
   example_assert False [''A''] = Inl \<lparr>err_message = ''A'', err_stack = Some ''at example''\<rparr> \<and>
   example_assert True [''B''] = Inr () \<and>
   example_assert False [''C''] = Inl \<lparr>err_message = ''C'', err_stack = Some ''at example''\<rparr> \<and>
   snd (soft_it \<lparr>sync_part = [], result = NotThenable three_checks\<rparr>
          (initial_state example_assert)) =
     Some (SoftAssertionError
       ([CHR 0x0A] @
        ''================================================================================'' @
        [CHR 0x0A] @ ''SOFT ASSERTION FAILURES (2 failed):'' @
        [CHR 0x0A] @
        ''================================================================================'' @
        [CHR 0x0A] @ ''  1. A'' @
        [CHR 0x0A] @ ''  2. C'' @
        [CHR 0x0A] @
        ''================================================================================'' @
        [CHR 0x0A]))"
proof -
  let ?fn = "\<lparr>sync_part = [], result = NotThenable three_checks\<rparr> :: (bool, string) test_fn"
  have w: "well_formed example_assert (initial_state example_assert)"
    by (rule well_formed_initial_state)
  have a: "example_assert False [''A''] =
             Inl \<lparr>err_message = ''A'', err_stack = Some ''at example''\<rparr>"
    and b: "example_assert True [''B''] = Inr ()"
    and c: "example_assert False [''C''] =
             Inl \<lparr>err_message = ''C'', err_stack = Some ''at example''\<rparr>"
    by (simp_all add: example_assert_def)
  have ma: "err_message \<lparr>err_message = ''A'', err_stack = Some ''at example''\<rparr> = ''A''"
    and mc: "err_message \<lparr>err_message = ''C'', err_stack = Some ''at example''\<rparr> = ''C''"
    by simp_all
  have l: "sync_part ?fn @ three_checks =
             [Check False [''A''], Check True [''B''], Check False [''C'']]"
    by (simp add: three_checks_def)
  have r: "result ?fn = NotThenable three_checks \<or> result ?fn = Thenable three_checks"
    by simp
  show ?thesis
    using numbering_counts_failed_checks [OF w a ma b c mc l r] w a b c
    by simp
qed

text \<open>
  C7. With \<open>isInSoftTest\<close> false the wrapper passes a failure of the original routine
  on unchanged (lemma \<open>wrapper_regular_mode\<close>). The consequence drawn for a test
  registered with the host's own \<open>it\<close> does not hold after every aggregating test.
  Here an aggregating test queues a failing check and then a command that raises an
  error of its own: the host ends the test with that error, the step appended last
  never runs, and \<open>isInSoftTest\<close> stays true. Over the untouched engine the regular
  test that follows fails with the error of its first failing check; after the
  aggregating test it passes, its failing checks recorded instead of raised.
\<close>

theorem regular_test_after_host_abort:
  "snd (soft_it aborted_by_host (initial_state example_assert)) = Some (Rethrown boom) \<and>
   isInSoftTest (fst (soft_it aborted_by_host (initial_state example_assert))) \<and>
   chai_assert (fst (soft_it aborted_by_host (initial_state example_assert))) = Wrapper \<and>
   snd (regular_it three_checks (initial_state example_assert)) =
     Some (Rethrown \<lparr>err_message = ''A'', err_stack = Some ''at example''\<rparr>) \<and>
   snd (regular_it three_checks
          (fst (soft_it aborted_by_host (initial_state example_assert)))) = None \<and>
   softAssertionErrors
     (fst (regular_it three_checks
             (fst (soft_it aborted_by_host (initial_state example_assert))))) =
     [\<lparr>message = ''A'', stack = Some ''at example''\<rparr>,
      \<lparr>message = ''A'', stack = Some ''at example''\<rparr>,
      \<lparr>message = ''C'', stack = Some ''at example''\<rparr>]"
proof -
  let ?s = "\<lparr>softAssertionErrors = [\<lparr>message = ''A'', stack = Some ''at example''\<rparr>],
             isInSoftTest = True, originalAssert = Some (Native example_assert),
             chai_assert = Wrapper\<rparr> :: (bool, string, unit) plugin_state"
  have q: "run_stmts started [Check False [''A''], Throw boom] =
     (started\<lparr>softAssertionErrors := [\<lparr>message = ''A'', stack = Some ''at example''\<rparr>]\<rparr>,
      Some boom)"
    by (rule started_run(1))
  have a: "soft_it aborted_by_host (initial_state example_assert) = (?s, Some (Rethrown boom))"
    using q
    by (simp add: soft_it_def executeTest_def aborted_by_host_def started_def [symmetric])
       (simp add: started_eq)
  have r: "run_stmts ?s three_checks =
     (?s\<lparr>softAssertionErrors := softAssertionErrors ?s @ captured example_assert three_checks\<rparr>,
      first_throw three_checks)"
    by (rule run_stmts_soft) simp_all
  have b: "regular_it three_checks (initial_state example_assert) =
     (initial_state example_assert,
      map_option Rethrown (first_failure example_assert three_checks))"
    by (rule regular_it_regular_mode) (simp_all add: initial_state_def well_formed_def)
  have c: "captured example_assert three_checks =
     [\<lparr>message = ''A'', stack = Some ''at example''\<rparr>,
      \<lparr>message = ''C'', stack = Some ''at example''\<rparr>]"
    "first_throw three_checks = None"
    "first_failure example_assert three_checks =
       Some \<lparr>err_message = ''A'', err_stack = Some ''at example''\<rparr>"
    by (simp_all add: three_checks_def example_assert_def)
  have p: "regular_it three_checks ?s =
     (?s\<lparr>softAssertionErrors :=
           softAssertionErrors ?s @ captured example_assert three_checks\<rparr>, None)"
    by (simp add: regular_it_def r c)
  show ?thesis
    unfolding a
    by (simp add: b p c)
qed

end
